theory Spec2Isabelle
  imports Main "HOL-Library.Word"
begin

unbundle bit_operations_syntax

section \<open>Data model of components/esp32/aes.c\<close>

text \<open>
  The file drives one hardware AES engine through ROM routines and builds the modes
  ECB, CBC, CFB-128, CFB-8 and CTR on top of it. The model is sequential: one thread
  of control, every function a state transformer on the memory it touches.

  The second argument \<open>mode\<close> of the C functions is an \<open>int\<close> that the code only
  ever compares with the two macros \<open>AES_ENCRYPT\<close> and \<open>AES_DECRYPT\<close>; the model
  restricts it to these two values. Return codes are \<open>0\<close> and the two error macros,
  whose numbers live in aes.h; only their being distinct is used.
\<close>

type_synonym byte = "8 word"

datatype aes_mode = AES_ENCRYPT | AES_DECRYPT

datatype AES_BITS = AES128 | AES192 | AES256

datatype aes_ret = AES_OK | ERR_AES_INVALID_KEY_LENGTH | ERR_AES_INVALID_INPUT_LENGTH

text \<open>
  Modelled from the spec: the struct \<open>AES_CTX\<close> is declared in aes.h, which is not
  part of the sources at hand. The code reads and writes the fields \<open>keyflag\<close>,
  \<open>keybits\<close> and \<open>key\<close> of its two members \<open>enc\<close> and \<open>dec\<close>; the spec gives the
  key array 32 bytes and lets the recorded bits hold 128, 192 and 256.
\<close>

record KEY_CTX =
  keyflag :: bool
  keybits :: "32 word"
  key :: "byte list"

record AES_CTX =
  enc :: KEY_CTX
  dec :: KEY_CTX

definition KEY_SIZE :: nat where
  "KEY_SIZE = 32"

definition zero_key :: KEY_CTX where
  "zero_key = \<lparr>keyflag = False, keybits = 0, key = replicate KEY_SIZE 0\<rparr>"

text \<open>\<open>memset(ctx, 0, sizeof(AES_CTX))\<close> and \<open>bzero(ctx, sizeof(AES_CTX))\<close>.\<close>

definition zero_ctx :: AES_CTX where
  "zero_ctx = \<lparr>enc = zero_key, dec = zero_key\<rparr>"

text \<open>
  \<open>memcpy(dst, src, n)\<close> on byte lists: the first \<open>n\<close> bytes of \<open>dst\<close> are replaced
  by the first \<open>n\<close> bytes of \<open>src\<close>. C leaves a copy from a shorter source undefined;
  the theorems below state the lengths they rely on.
\<close>

definition memcpy :: "byte list \<Rightarrow> byte list \<Rightarrow> nat \<Rightarrow> byte list" where
  "memcpy dst src n = take n src @ drop n dst"

section \<open>The engine\<close>

text \<open>
  Modelled from the spec: the ROM routines \<open>ets_aes_enable\<close>, \<open>ets_aes_disable\<close>,
  \<open>ets_aes_setkey_enc\<close>, \<open>ets_aes_setkey_dec\<close>, \<open>ets_aes_crypt\<close> and the macros
  \<open>AES_LOCK\<close>, \<open>AES_UNLOCK\<close>, \<open>AES_TAKE\<close>, \<open>AES_GIVE\<close>, \<open>AES_IS_USED\<close> of
  esp_crypto.h are not part of the sources at hand. The engine holds at most one key
  schedule (direction, size, key bytes) and a power state; the macros keep a count of
  live contexts. The fields \<open>enable_calls\<close> and \<open>disable_calls\<close> are ghost counters
  of the calls made to the two power routines. What \<open>AES_GIVE\<close> does to a count of 0
  is not known; the count stays at 0 here, and the statements about sequences of calls
  are made for sequences that never free a context at count 0.
\<close>

type_synonym key_schedule = "aes_mode \<times> AES_BITS \<times> byte list"

record aes_engine =
  aes_cnt :: nat
  hw_enabled :: bool
  hw_key :: "key_schedule option"
  enable_calls :: nat
  disable_calls :: nat

text \<open>
  The block transform itself is a parameter of the model: \<open>hw s b\<close> is what the engine
  makes of the block \<open>b\<close> when it holds the key schedule \<open>s\<close> (\<open>None\<close>: no key was
  ever installed).
\<close>

type_synonym block_transform = "key_schedule option \<Rightarrow> byte list \<Rightarrow> byte list"

text \<open>The lock serialises threads; in a single thread taking and giving it changes nothing.\<close>

definition AES_LOCK :: "aes_engine \<Rightarrow> aes_engine" where
  "AES_LOCK e = e"

definition AES_UNLOCK :: "aes_engine \<Rightarrow> aes_engine" where
  "AES_UNLOCK e = e"

definition AES_TAKE :: "aes_engine \<Rightarrow> aes_engine" where
  "AES_TAKE e = e\<lparr>aes_cnt := aes_cnt e + 1\<rparr>"

definition AES_GIVE :: "aes_engine \<Rightarrow> aes_engine" where
  "AES_GIVE e = e\<lparr>aes_cnt := aes_cnt e - 1\<rparr>"

definition AES_IS_USED :: "aes_engine \<Rightarrow> bool" where
  "AES_IS_USED e = (0 < aes_cnt e)"

definition ets_aes_enable :: "aes_engine \<Rightarrow> aes_engine" where
  "ets_aes_enable e = e\<lparr>hw_enabled := True, enable_calls := enable_calls e + 1\<rparr>"

definition ets_aes_disable :: "aes_engine \<Rightarrow> aes_engine" where
  "ets_aes_disable e = e\<lparr>hw_enabled := False, disable_calls := disable_calls e + 1\<rparr>"

fun key_bytes :: "AES_BITS \<Rightarrow> nat" where
  "key_bytes AES128 = 16"
| "key_bytes AES192 = 24"
| "key_bytes AES256 = 32"

definition ets_aes_setkey_enc :: "byte list \<Rightarrow> AES_BITS \<Rightarrow> aes_engine \<Rightarrow> aes_engine" where
  "ets_aes_setkey_enc k keybit e = e\<lparr>hw_key := Some (AES_ENCRYPT, keybit, take (key_bytes keybit) k)\<rparr>"

definition ets_aes_setkey_dec :: "byte list \<Rightarrow> AES_BITS \<Rightarrow> aes_engine \<Rightarrow> aes_engine" where
  "ets_aes_setkey_dec k keybit e = e\<lparr>hw_key := Some (AES_DECRYPT, keybit, take (key_bytes keybit) k)\<rparr>"

definition ets_aes_crypt :: "block_transform \<Rightarrow> aes_engine \<Rightarrow> byte list \<Rightarrow> byte list" where
  "ets_aes_crypt hw e input = hw (hw_key e) (take 16 input)"

section \<open>Context life cycle\<close>

text \<open>\<open>esp_aes_init\<close>: the context is cleared, the count taken, the engine enabled.\<close>

definition esp_aes_init :: "aes_engine \<Rightarrow> AES_CTX \<times> aes_engine" where
  "esp_aes_init e = (zero_ctx, AES_UNLOCK (ets_aes_enable (AES_TAKE (AES_LOCK e))))"

text \<open>
  \<open>esp_aes_free\<close>: the pointer may be \<open>NULL\<close> (\<open>None\<close>); the result is the memory the
  pointer refers to afterwards, and the engine.
\<close>

definition esp_aes_free :: "AES_CTX option \<Rightarrow> aes_engine \<Rightarrow> AES_CTX option \<times> aes_engine" where
  "esp_aes_free ctx e =
     (case ctx of
        None \<Rightarrow> (None, e)
      | Some c \<Rightarrow>
          (let e1 = AES_GIVE (AES_LOCK e);
               e2 = (if AES_IS_USED e1 = False then ets_aes_disable e1 else e1)
           in (Some zero_ctx, AES_UNLOCK e2)))"

section \<open>Key schedule\<close>

text \<open>
  The key pointer of \<open>esp_aes_setkey_enc\<close> and \<open>esp_aes_setkey_dec\<close> is either a
  buffer of the caller or, in \<open>esp_aes_process_enable\<close>, the key array of the context
  itself. The bytes are read when the code reads them: after the \<open>memset\<close> in the
  first branch.
\<close>

datatype key_ptr = KeyBuf "byte list" | CtxEncKey | CtxDecKey

fun read_key :: "AES_CTX \<Rightarrow> key_ptr \<Rightarrow> byte list" where
  "read_key c (KeyBuf k) = k"
| "read_key c CtxEncKey = key (enc c)"
| "read_key c CtxDecKey = key (dec c)"

text \<open>The \<open>switch\<close> on \<open>keybits\<close>.\<close>

definition keybit_of :: "32 word \<Rightarrow> AES_BITS option" where
  "keybit_of kb =
     (if kb = 128 then Some AES128
      else if kb = 192 then Some AES192
      else if kb = 256 then Some AES256
      else None)"

definition esp_aes_setkey_enc ::
  "AES_CTX \<Rightarrow> aes_engine \<Rightarrow> key_ptr \<Rightarrow> 32 word \<Rightarrow> aes_ret \<times> AES_CTX \<times> aes_engine" where
  "esp_aes_setkey_enc ctx e kp kb =
     (let keybyte = (ucast (kb div 8) :: 16 word) in
      case keybit_of kb of
        None \<Rightarrow> (ERR_AES_INVALID_KEY_LENGTH, ctx, e)
      | Some keybit \<Rightarrow>
          if keyflag (enc ctx) = False then
            (let c1 = ctx\<lparr>enc := (enc ctx)\<lparr>keyflag := True, keybits := kb,
                                             key := replicate KEY_SIZE 0\<rparr>\<rparr>;
                 c2 = c1\<lparr>enc := (enc c1)\<lparr>key := memcpy (key (enc c1)) (read_key c1 kp)
                                                     (unat keybyte)\<rparr>\<rparr>
             in (AES_OK, c2, e))
          else (AES_OK, ctx, ets_aes_setkey_enc (read_key ctx kp) keybit e))"

definition esp_aes_setkey_dec ::
  "AES_CTX \<Rightarrow> aes_engine \<Rightarrow> key_ptr \<Rightarrow> 32 word \<Rightarrow> aes_ret \<times> AES_CTX \<times> aes_engine" where
  "esp_aes_setkey_dec ctx e kp kb =
     (let keybyte = (ucast (kb div 8) :: 16 word) in
      case keybit_of kb of
        None \<Rightarrow> (ERR_AES_INVALID_KEY_LENGTH, ctx, e)
      | Some keybit \<Rightarrow>
          if keyflag (dec ctx) = False then
            (let c1 = ctx\<lparr>dec := (dec ctx)\<lparr>keyflag := True, keybits := kb,
                                             key := replicate KEY_SIZE 0\<rparr>\<rparr>;
                 c2 = c1\<lparr>dec := (dec c1)\<lparr>key := memcpy (key (dec c1)) (read_key c1 kp)
                                                     (unat keybyte)\<rparr>\<rparr>
             in (AES_OK, c2, e))
          else (AES_OK, ctx, ets_aes_setkey_dec (read_key ctx kp) keybit e))"

text \<open>\<open>esp_aes_process_enable\<close> drops the return code of the key routine.\<close>

definition esp_aes_process_enable :: "AES_CTX \<Rightarrow> aes_engine \<Rightarrow> aes_mode \<Rightarrow> AES_CTX \<times> aes_engine" where
  "esp_aes_process_enable ctx e m =
     (if m = AES_ENCRYPT
      then snd (esp_aes_setkey_enc ctx e CtxEncKey (keybits (enc ctx)))
      else snd (esp_aes_setkey_dec ctx e CtxDecKey (keybits (dec ctx))))"

definition esp_aes_process_disable :: "AES_CTX \<Rightarrow> aes_engine \<Rightarrow> aes_mode \<Rightarrow> AES_CTX \<times> aes_engine" where
  "esp_aes_process_disable ctx e m = (ctx, e)"

section \<open>Single blocks\<close>

definition esp_aes_encrypt :: "block_transform \<Rightarrow> AES_CTX \<Rightarrow> aes_engine \<Rightarrow> byte list \<Rightarrow> byte list" where
  "esp_aes_encrypt hw ctx e input = ets_aes_crypt hw e input"

definition esp_aes_decrypt :: "block_transform \<Rightarrow> AES_CTX \<Rightarrow> aes_engine \<Rightarrow> byte list \<Rightarrow> byte list" where
  "esp_aes_decrypt hw ctx e input = ets_aes_crypt hw e input"

text \<open>
  \<open>esp_aes_crypt_ecb\<close> returns the code, the context, the engine and the 16 bytes
  written to \<open>output\<close>.
\<close>

definition esp_aes_crypt_ecb ::
  "block_transform \<Rightarrow> AES_CTX \<Rightarrow> aes_engine \<Rightarrow> aes_mode \<Rightarrow> byte list
     \<Rightarrow> aes_ret \<times> AES_CTX \<times> aes_engine \<times> byte list" where
  "esp_aes_crypt_ecb hw ctx e m input =
     (case esp_aes_process_enable ctx (AES_LOCK e) m of
        (c1, e1) \<Rightarrow>
          (let output = (if m = AES_ENCRYPT then esp_aes_encrypt hw c1 e1 input
                         else esp_aes_decrypt hw c1 e1 input)
           in case esp_aes_process_disable c1 e1 m of
                (c2, e2) \<Rightarrow> (AES_OK, c2, AES_UNLOCK e2, output)))"

section \<open>CBC\<close>

text \<open>
  The loops of the mode functions return the bytes they wrote through the advancing
  \<open>output\<close> pointer, in order; the input pointer advances by \<open>drop\<close>. \<open>length\<close> is a
  \<open>size_t\<close> that only counts down to 0 and is modelled as a natural number: the CBC
  loops are entered only after the check \<open>length % 16\<close>, so \<open>length -= 16\<close> never
  wraps.
\<close>

fun cbc_dec_loop ::
  "block_transform \<Rightarrow> AES_CTX \<Rightarrow> aes_engine \<Rightarrow> nat \<Rightarrow> byte list \<Rightarrow> byte list
     \<Rightarrow> AES_CTX \<times> aes_engine \<times> byte list \<times> byte list" where
  "cbc_dec_loop hw ctx e len iv input =
     (if 0 < len then
        (let temp = memcpy (replicate 16 0) input 16 in
         case esp_aes_crypt_ecb hw ctx e AES_DECRYPT input of
           (r, c1, e1, out0) \<Rightarrow>
             (let out1 = map (\<lambda>i. out0 ! i XOR iv ! i) [0..<16];
                  iv1 = memcpy iv temp 16
              in case cbc_dec_loop hw c1 e1 (len - 16) iv1 (drop 16 input) of
                   (c2, e2, iv2, outs) \<Rightarrow> (c2, e2, iv2, out1 @ outs)))
      else (ctx, e, iv, []))"

fun cbc_enc_loop ::
  "block_transform \<Rightarrow> AES_CTX \<Rightarrow> aes_engine \<Rightarrow> nat \<Rightarrow> byte list \<Rightarrow> byte list
     \<Rightarrow> AES_CTX \<times> aes_engine \<times> byte list \<times> byte list" where
  "cbc_enc_loop hw ctx e len iv input =
     (if 0 < len then
        (let out0 = map (\<lambda>i. input ! i XOR iv ! i) [0..<16] in
         case esp_aes_crypt_ecb hw ctx e AES_ENCRYPT out0 of
           (r, c1, e1, out1) \<Rightarrow>
             (let iv1 = memcpy iv out1 16
              in case cbc_enc_loop hw c1 e1 (len - 16) iv1 (drop 16 input) of
                   (c2, e2, iv2, outs) \<Rightarrow> (c2, e2, iv2, out1 @ outs)))
      else (ctx, e, iv, []))"

text \<open>
  \<open>esp_aes_crypt_cbc\<close> returns the code, the context, the engine, the IV and the
  output buffer as they are after the call.
\<close>

definition esp_aes_crypt_cbc ::
  "block_transform \<Rightarrow> AES_CTX \<Rightarrow> aes_engine \<Rightarrow> aes_mode \<Rightarrow> nat \<Rightarrow> byte list \<Rightarrow> byte list
     \<Rightarrow> byte list \<Rightarrow> aes_ret \<times> AES_CTX \<times> aes_engine \<times> byte list \<times> byte list" where
  "esp_aes_crypt_cbc hw ctx e m len iv input output =
     (if len mod 16 \<noteq> 0 then (ERR_AES_INVALID_INPUT_LENGTH, ctx, e, iv, output)
      else if m = AES_DECRYPT then
        (case cbc_dec_loop hw ctx e len iv input of
           (c1, e1, iv1, w) \<Rightarrow> (AES_OK, c1, e1, iv1, memcpy output w len))
      else
        (case cbc_enc_loop hw ctx e len iv input of
           (c1, e1, iv1, w) \<Rightarrow> (AES_OK, c1, e1, iv1, memcpy output w len)))"

section \<open>CFB-128\<close>

text \<open>The offset \<open>n\<close> is a \<open>size_t\<close>, 32 bits wide on this chip.\<close>

fun cfb128_dec_loop ::
  "block_transform \<Rightarrow> AES_CTX \<Rightarrow> aes_engine \<Rightarrow> nat \<Rightarrow> 32 word \<Rightarrow> byte list \<Rightarrow> byte list
     \<Rightarrow> AES_CTX \<times> aes_engine \<times> 32 word \<times> byte list \<times> byte list" where
  "cfb128_dec_loop hw ctx e 0 n iv input = (ctx, e, n, iv, [])"
| "cfb128_dec_loop hw ctx e (Suc len) n iv input =
     (case (if n = 0
            then (case esp_aes_crypt_ecb hw ctx e AES_ENCRYPT iv of
                    (r, c1, e1, out) \<Rightarrow> (c1, e1, memcpy iv out 16))
            else (ctx, e, iv)) of
        (c1, e1, iv1) \<Rightarrow>
          (let c = input ! 0;
               ob = c XOR iv1 ! unat n;
               iv2 = iv1[unat n := c];
               n' = (n + 1) AND 0x0F
           in case cfb128_dec_loop hw c1 e1 len n' iv2 (drop 1 input) of
                (c2, e2, nf, ivf, outs) \<Rightarrow> (c2, e2, nf, ivf, ob # outs)))"

fun cfb128_enc_loop ::
  "block_transform \<Rightarrow> AES_CTX \<Rightarrow> aes_engine \<Rightarrow> nat \<Rightarrow> 32 word \<Rightarrow> byte list \<Rightarrow> byte list
     \<Rightarrow> AES_CTX \<times> aes_engine \<times> 32 word \<times> byte list \<times> byte list" where
  "cfb128_enc_loop hw ctx e 0 n iv input = (ctx, e, n, iv, [])"
| "cfb128_enc_loop hw ctx e (Suc len) n iv input =
     (case (if n = 0
            then (case esp_aes_crypt_ecb hw ctx e AES_ENCRYPT iv of
                    (r, c1, e1, out) \<Rightarrow> (c1, e1, memcpy iv out 16))
            else (ctx, e, iv)) of
        (c1, e1, iv1) \<Rightarrow>
          (let ob = iv1 ! unat n XOR input ! 0;
               iv2 = iv1[unat n := ob];
               n' = (n + 1) AND 0x0F
           in case cfb128_enc_loop hw c1 e1 len n' iv2 (drop 1 input) of
                (c2, e2, nf, ivf, outs) \<Rightarrow> (c2, e2, nf, ivf, ob # outs)))"

text \<open>
  \<open>esp_aes_crypt_cfb128\<close> returns the code, the context, the engine, the offset
  written back to \<open>*iv_off\<close>, the IV and the output buffer.
\<close>

definition esp_aes_crypt_cfb128 ::
  "block_transform \<Rightarrow> AES_CTX \<Rightarrow> aes_engine \<Rightarrow> aes_mode \<Rightarrow> nat \<Rightarrow> 32 word \<Rightarrow> byte list
     \<Rightarrow> byte list \<Rightarrow> byte list
     \<Rightarrow> aes_ret \<times> AES_CTX \<times> aes_engine \<times> 32 word \<times> byte list \<times> byte list" where
  "esp_aes_crypt_cfb128 hw ctx e m len iv_off iv input output =
     (case (if m = AES_DECRYPT then cfb128_dec_loop hw ctx e len iv_off iv input
            else cfb128_enc_loop hw ctx e len iv_off iv input) of
        (c1, e1, n, iv1, w) \<Rightarrow> (AES_OK, c1, e1, n, iv1, memcpy output w len))"

section \<open>CFB-8\<close>

text \<open>
  \<open>ov\<close> has 17 bytes; the last one is written in one of the two \<open>if\<close> statements
  before it is read, whatever the mode, so its value before that does not matter.
\<close>

fun cfb8_loop ::
  "block_transform \<Rightarrow> aes_mode \<Rightarrow> AES_CTX \<Rightarrow> aes_engine \<Rightarrow> nat \<Rightarrow> byte list \<Rightarrow> byte list
     \<Rightarrow> AES_CTX \<times> aes_engine \<times> byte list \<times> byte list" where
  "cfb8_loop hw m ctx e 0 iv input = (ctx, e, iv, [])"
| "cfb8_loop hw m ctx e (Suc len) iv input =
     (let ov = memcpy (replicate 17 0) iv 16 in
      case esp_aes_crypt_ecb hw ctx e AES_ENCRYPT iv of
        (r, c1, e1, out) \<Rightarrow>
          (let iv1 = memcpy iv out 16;
               ov1 = (if m = AES_DECRYPT then ov[16 := input ! 0] else ov);
               c = iv1 ! 0 XOR input ! 0;
               ov2 = (if m = AES_ENCRYPT then ov1[16 := c] else ov1);
               iv2 = memcpy iv1 (drop 1 ov2) 16
           in case cfb8_loop hw m c1 e1 len iv2 (drop 1 input) of
                (c2, e2, ivf, outs) \<Rightarrow> (c2, e2, ivf, c # outs)))"

definition esp_aes_crypt_cfb8 ::
  "block_transform \<Rightarrow> AES_CTX \<Rightarrow> aes_engine \<Rightarrow> aes_mode \<Rightarrow> nat \<Rightarrow> byte list \<Rightarrow> byte list
     \<Rightarrow> byte list \<Rightarrow> aes_ret \<times> AES_CTX \<times> aes_engine \<times> byte list \<times> byte list" where
  "esp_aes_crypt_cfb8 hw ctx e m len iv input output =
     (case cfb8_loop hw m ctx e len iv input of
        (c1, e1, iv1, w) \<Rightarrow> (AES_OK, c1, e1, iv1, memcpy output w len))"

section \<open>CTR\<close>

text \<open>
  The inner loop \<open>for (i = 16; i > 0; i--) if (++nonce_counter[i - 1] != 0) break;\<close>
  with \<open>i\<close> the successor of the index it touches.
\<close>

fun ctr_inc_loop :: "nat \<Rightarrow> byte list \<Rightarrow> byte list" where
  "ctr_inc_loop 0 nc = nc"
| "ctr_inc_loop (Suc i) nc =
     (let nc1 = nc[i := nc ! i + 1]
      in if nc1 ! i \<noteq> 0 then nc1 else ctr_inc_loop i nc1)"

fun ctr_loop ::
  "block_transform \<Rightarrow> AES_CTX \<Rightarrow> aes_engine \<Rightarrow> nat \<Rightarrow> 32 word \<Rightarrow> byte list \<Rightarrow> byte list
     \<Rightarrow> byte list
     \<Rightarrow> AES_CTX \<times> aes_engine \<times> 32 word \<times> byte list \<times> byte list \<times> byte list" where
  "ctr_loop hw ctx e 0 n nc sb input = (ctx, e, n, nc, sb, [])"
| "ctr_loop hw ctx e (Suc len) n nc sb input =
     (case (if n = 0
            then (case esp_aes_crypt_ecb hw ctx e AES_ENCRYPT nc of
                    (r, c1, e1, out) \<Rightarrow> (c1, e1, ctr_inc_loop 16 nc, memcpy sb out 16))
            else (ctx, e, nc, sb)) of
        (c1, e1, nc1, sb1) \<Rightarrow>
          (let c = input ! 0;
               ob = c XOR sb1 ! unat n;
               n' = (n + 1) AND 0x0F
           in case ctr_loop hw c1 e1 len n' nc1 sb1 (drop 1 input) of
                (c2, e2, nf, ncf, sbf, outs) \<Rightarrow> (c2, e2, nf, ncf, sbf, ob # outs)))"

text \<open>
  \<open>esp_aes_crypt_ctr\<close> returns the code, the context, the engine, the offset written
  back to \<open>*nc_off\<close>, the nonce counter, the stream block and the output buffer.
\<close>

definition esp_aes_crypt_ctr ::
  "block_transform \<Rightarrow> AES_CTX \<Rightarrow> aes_engine \<Rightarrow> nat \<Rightarrow> 32 word \<Rightarrow> byte list \<Rightarrow> byte list
     \<Rightarrow> byte list \<Rightarrow> byte list
     \<Rightarrow> aes_ret \<times> AES_CTX \<times> aes_engine \<times> 32 word \<times> byte list \<times> byte list \<times> byte list" where
  "esp_aes_crypt_ctr hw ctx e len nc_off nonce_counter stream_block input output =
     (case ctr_loop hw ctx e len nc_off nonce_counter stream_block input of
        (c1, e1, n, nc1, sb1, w) \<Rightarrow> (AES_OK, c1, e1, n, nc1, sb1, memcpy output w len))"

section \<open>Vocabulary of the properties\<close>

text \<open>A key record as \<open>setKey\<close> leaves it, and one no \<open>setKey\<close> has touched.\<close>

definition key_set :: "KEY_CTX \<Rightarrow> bool" where
  "key_set kr = (keyflag kr \<and> keybit_of (keybits kr) \<noteq> None)"

definition key_unset :: "KEY_CTX \<Rightarrow> bool" where
  "key_unset kr = (\<not> keyflag kr \<and> keybit_of (keybits kr) = None)"

text \<open>The key schedule that installing the record \<open>kr\<close> for direction \<open>m\<close> puts on the engine.\<close>

definition sched_of :: "aes_mode \<Rightarrow> KEY_CTX \<Rightarrow> key_schedule option" where
  "sched_of m kr =
     (case keybit_of (keybits kr) of
        None \<Rightarrow> None
      | Some kb \<Rightarrow> Some (m, kb, take (key_bytes kb) (key kr)))"

text \<open>The engine hands back a block of 16 bytes for every block of 16 bytes.\<close>

definition block_sized :: "block_transform \<Rightarrow> bool" where
  "block_sized hw = (\<forall>s b. length b = 16 \<longrightarrow> length (hw s b) = 16)"

text \<open>A byte string read as a big-endian number.\<close>

definition be_val :: "byte list \<Rightarrow> nat" where
  "be_val xs = foldl (\<lambda>a b. 256 * a + unat b) 0 xs"

text \<open>Sequences of life-cycle calls on the shared engine.\<close>

datatype life_op = OpInit | OpFree "AES_CTX option"

fun run_op :: "life_op \<Rightarrow> aes_engine \<Rightarrow> aes_engine" where
  "run_op OpInit e = snd (esp_aes_init e)"
| "run_op (OpFree p) e = snd (esp_aes_free p e)"

fun run_ops :: "life_op list \<Rightarrow> aes_engine \<Rightarrow> aes_engine" where
  "run_ops [] e = e"
| "run_ops (x # xs) e = run_ops xs (run_op x e)"

text \<open>The number of steps of a run at which the count of live contexts leaves 0, and reaches 0.\<close>

fun ups :: "life_op list \<Rightarrow> aes_engine \<Rightarrow> nat" where
  "ups [] e = 0"
| "ups (x # xs) e =
     (if aes_cnt e = 0 \<and> 0 < aes_cnt (run_op x e) then 1 else 0) + ups xs (run_op x e)"

fun downs :: "life_op list \<Rightarrow> aes_engine \<Rightarrow> nat" where
  "downs [] e = 0"
| "downs (x # xs) e =
     (if 0 < aes_cnt e \<and> aes_cnt (run_op x e) = 0 then 1 else 0) + downs xs (run_op x e)"

fun is_init :: "life_op \<Rightarrow> bool" where
  "is_init OpInit = True"
| "is_init (OpFree p) = False"

text \<open>Every context that is freed was live: no free of a context finds the count at 0.\<close>

fun balanced :: "life_op list \<Rightarrow> aes_engine \<Rightarrow> bool" where
  "balanced [] e = True"
| "balanced (OpFree (Some c) # xs) e = (0 < aes_cnt e \<and> balanced xs (run_op (OpFree (Some c)) e))"
| "balanced (x # xs) e = balanced xs (run_op x e)"

text \<open>An engine at rest, and a stand-in block transform for the concrete runs below:
  it adds a number made from the key to every byte, or takes it away again.\<close>

definition idle_engine :: aes_engine where
  "idle_engine = \<lparr>aes_cnt = 0, hw_enabled = False, hw_key = None,
                   enable_calls = 0, disable_calls = 0\<rparr>"

definition shift_hw :: block_transform where
  "shift_hw s b =
     (case s of
        None \<Rightarrow> b
      | Some (m, kb, k) \<Rightarrow>
          (if m = AES_ENCRYPT then map (\<lambda>x. x + (sum_list k + 1)) b
           else map (\<lambda>x. x - (sum_list k + 1)) b))"

text \<open>
  The context that \<open>esp_aes_init\<close> followed by \<open>esp_aes_setkey_enc\<close> and
  \<open>esp_aes_setkey_dec\<close> with the 128-bit key of sixteen bytes \<open>0x01\<close> leaves.
\<close>

definition keyed_ctx :: AES_CTX where
  "keyed_ctx =
     \<lparr>enc = \<lparr>keyflag = True, keybits = 128, key = replicate 16 1 @ replicate 16 0\<rparr>,
      dec = \<lparr>keyflag = True, keybits = 128, key = replicate 16 1 @ replicate 16 0\<rparr>\<rparr>"

section \<open>Auxiliary facts\<close>

lemma keybit_of_cases:
  "keybit_of kb = Some b \<Longrightarrow>
     (kb = 128 \<and> b = AES128) \<or> (kb = 192 \<and> b = AES192) \<or> (kb = 256 \<and> b = AES256)"
  by (auto simp: keybit_of_def split: if_splits)

lemma keybyte_eq: "keybit_of kb = Some b \<Longrightarrow> unat (ucast (kb div 8) :: 16 word) = key_bytes b"
  by (auto dest!: keybit_of_cases)

lemma and15: "(w AND (0x0F :: 32 word)) = take_bit 4 w"
  by (simp add: take_bit_eq_mask mask_eq_exp_minus_1)

lemma off_step: "unat ((n + 1) AND (0x0F :: 32 word)) = (unat n + 1) mod 16"
proof -
  have "unat (take_bit 4 (n + 1)) = unat (n + 1) mod 16"
    by (simp add: unsigned_take_bit_eq take_bit_eq_mod unat_mod)
  also have "\<dots> = ((unat n + 1) mod 2 ^ 32) mod 16"
    by (simp add: unat_word_ariths)
  also have "\<dots> = (unat n + 1) mod 16"
    by (simp add: mod_mod_cancel)
  finally show ?thesis by (simp add: and15)
qed

lemma off_lt: "unat ((n + 1) AND (0x0F :: 32 word)) < 16"
  by (simp add: off_step)

text \<open>What one ECB call does when the key of its direction is set, and when it is not.\<close>

lemma ecb_key_set:
  "key_set (enc ctx) \<Longrightarrow>
   esp_aes_crypt_ecb hw ctx e AES_ENCRYPT b =
     (AES_OK, ctx, e\<lparr>hw_key := sched_of AES_ENCRYPT (enc ctx)\<rparr>,
      hw (sched_of AES_ENCRYPT (enc ctx)) (take 16 b))"
  "key_set (dec ctx) \<Longrightarrow>
   esp_aes_crypt_ecb hw ctx e AES_DECRYPT b =
     (AES_OK, ctx, e\<lparr>hw_key := sched_of AES_DECRYPT (dec ctx)\<rparr>,
      hw (sched_of AES_DECRYPT (dec ctx)) (take 16 b))"
  by (auto simp: key_set_def esp_aes_crypt_ecb_def esp_aes_process_enable_def
        esp_aes_process_disable_def esp_aes_setkey_enc_def esp_aes_setkey_dec_def
        ets_aes_setkey_enc_def ets_aes_setkey_dec_def AES_LOCK_def AES_UNLOCK_def
        esp_aes_encrypt_def esp_aes_decrypt_def ets_aes_crypt_def sched_of_def)

lemma ecb_key_unset:
  "key_unset (enc ctx) \<Longrightarrow>
   esp_aes_crypt_ecb hw ctx e AES_ENCRYPT b = (AES_OK, ctx, e, hw (hw_key e) (take 16 b))"
  "key_unset (dec ctx) \<Longrightarrow>
   esp_aes_crypt_ecb hw ctx e AES_DECRYPT b = (AES_OK, ctx, e, hw (hw_key e) (take 16 b))"
  by (auto simp: key_unset_def esp_aes_crypt_ecb_def esp_aes_process_enable_def
        esp_aes_process_disable_def esp_aes_setkey_enc_def esp_aes_setkey_dec_def
        AES_LOCK_def AES_UNLOCK_def
        esp_aes_encrypt_def esp_aes_decrypt_def ets_aes_crypt_def)

subsection \<open>The offset of the stream modes\<close>

lemma cfb128_dec_loop_off:
  "unat n < 16 \<Longrightarrow> cfb128_dec_loop hw ctx e len n iv input = (c', e', nf, ivf, outs)
     \<Longrightarrow> unat nf = (unat n + len) mod 16"
proof (induction len arbitrary: ctx e n iv input c' e' nf ivf outs)
  case 0
  then show ?case by simp
next
  case (Suc len)
  from Suc.prems(2) obtain c1 e1 iv2 inp2 where
    rec: "cfb128_dec_loop hw c1 e1 len ((n + 1) AND 0x0F) iv2 inp2 = (c', e', nf, ivf, tl outs)"
    by (auto simp: Let_def split: prod.splits if_splits)
  have "unat nf = (unat ((n + 1) AND 0x0F) + len) mod 16"
    by (rule Suc.IH [OF off_lt rec])
  then show ?case
    by (simp add: off_step mod_add_left_eq)
qed

lemma cfb128_enc_loop_off:
  "unat n < 16 \<Longrightarrow> cfb128_enc_loop hw ctx e len n iv input = (c', e', nf, ivf, outs)
     \<Longrightarrow> unat nf = (unat n + len) mod 16"
proof (induction len arbitrary: ctx e n iv input c' e' nf ivf outs)
  case 0
  then show ?case by simp
next
  case (Suc len)
  from Suc.prems(2) obtain c1 e1 iv2 inp2 where
    rec: "cfb128_enc_loop hw c1 e1 len ((n + 1) AND 0x0F) iv2 inp2 = (c', e', nf, ivf, tl outs)"
    by (auto simp: Let_def split: prod.splits if_splits)
  have "unat nf = (unat ((n + 1) AND 0x0F) + len) mod 16"
    by (rule Suc.IH [OF off_lt rec])
  then show ?case
    by (simp add: off_step mod_add_left_eq)
qed

lemma ctr_loop_off:
  "unat n < 16 \<Longrightarrow> ctr_loop hw ctx e len n nc sb input = (c', e', nf, ncf, sbf, outs)
     \<Longrightarrow> unat nf = (unat n + len) mod 16"
proof (induction len arbitrary: ctx e n nc sb input c' e' nf ncf sbf outs)
  case 0
  then show ?case by simp
next
  case (Suc len)
  from Suc.prems(2) obtain c1 e1 nc2 sb2 inp2 where
    rec: "ctr_loop hw c1 e1 len ((n + 1) AND 0x0F) nc2 sb2 inp2 = (c', e', nf, ncf, sbf, tl outs)"
    by (auto simp: Let_def split: prod.splits if_splits)
  have "unat nf = (unat ((n + 1) AND 0x0F) + len) mod 16"
    by (rule Suc.IH [OF off_lt rec])
  then show ?case
    by (simp add: off_step mod_add_left_eq)
qed

section \<open>Properties\<close>

text \<open>
  C10. Freeing a \<open>NULL\<close> context returns at once: nothing is cleared, the count of
  live contexts and the engine are left as they were.
\<close>

theorem esp_aes_free_null: "esp_aes_free None e = (None, e)"
  by (simp add: esp_aes_free_def)

text \<open>
  C9. The single-block encrypt and decrypt entry points compute the same function:
  on one engine state they return the same bytes for every input, whatever context
  is passed, and these bytes are the same on every engine that holds the same key
  schedule.
\<close>

theorem encrypt_decrypt_same_transform:
  "esp_aes_encrypt hw ctx e input = esp_aes_decrypt hw ctx' e input \<and>
   esp_aes_encrypt hw ctx e input = esp_aes_encrypt hw ctx' (e'\<lparr>hw_key := hw_key e\<rparr>) input \<and>
   esp_aes_decrypt hw ctx e input = esp_aes_decrypt hw ctx' (e'\<lparr>hw_key := hw_key e\<rparr>) input"
  by (simp add: esp_aes_encrypt_def esp_aes_decrypt_def ets_aes_crypt_def)

text \<open>
  C7. CBC with a length that is not a multiple of 16 returns
  \<open>ERR_AES_INVALID_INPUT_LENGTH\<close>; the output buffer, the IV, the context and the
  engine are as they were before the call.
\<close>

theorem cbc_invalid_length:
  "len mod 16 \<noteq> 0 \<Longrightarrow>
   esp_aes_crypt_cbc hw ctx e m len iv input output =
     (ERR_AES_INVALID_INPUT_LENGTH, ctx, e, iv, output)"
  by (simp add: esp_aes_crypt_cbc_def)

theorem cbc_invalid_length_witness:
  "(5::nat) mod 16 \<noteq> 0 \<and>
   esp_aes_crypt_cbc shift_hw zero_ctx idle_engine AES_ENCRYPT 5 (replicate 16 0)
       [1, 2, 3, 4, 5] (replicate 5 9) =
     (ERR_AES_INVALID_INPUT_LENGTH, zero_ctx, idle_engine, replicate 16 0, replicate 5 9)"
  using cbc_invalid_length [of 5 shift_hw zero_ctx idle_engine AES_ENCRYPT "replicate 16 0"
      "[1, 2, 3, 4, 5]" "replicate 5 9"]
  by simp

text \<open>
  C8. A CFB-128 or CTR call that starts with an offset in [0,16) writes back an offset
  in [0,16), for every length and both directions: the offset after \<open>len\<close> bytes is
  the starting offset plus \<open>len\<close>, modulo 16.
\<close>

theorem offset_stays_in_range:
  assumes "unat n < 16"
  shows "(case esp_aes_crypt_cfb128 hw ctx e m len n iv input outbuf of
            (r, c', e', nf, rest) \<Rightarrow> unat nf < 16 \<and> unat nf = (unat n + len) mod 16) \<and>
         (case esp_aes_crypt_ctr hw ctx e len n nc sb input outbuf of
            (r, c', e', nf, rest) \<Rightarrow> unat nf < 16 \<and> unat nf = (unat n + len) mod 16)"
proof -
  have a: "case esp_aes_crypt_cfb128 hw ctx e m len n iv input outbuf of
            (r, c', e', nf, rest) \<Rightarrow> unat nf = (unat n + len) mod 16"
    using assms
    by (auto simp: esp_aes_crypt_cfb128_def split: prod.splits if_splits
             dest: cfb128_dec_loop_off cfb128_enc_loop_off)
  have b: "case esp_aes_crypt_ctr hw ctx e len n nc sb input outbuf of
            (r, c', e', nf, rest) \<Rightarrow> unat nf = (unat n + len) mod 16"
    using assms
    by (auto simp: esp_aes_crypt_ctr_def split: prod.splits dest: ctr_loop_off)
  from a b show ?thesis
    by (auto split: prod.splits)
qed

theorem offset_stays_in_range_witness:
  "unat (14 :: 32 word) < 16 \<and>
   (case esp_aes_crypt_cfb128 shift_hw zero_ctx idle_engine AES_DECRYPT 5 14 (replicate 16 0)
           [1, 2, 3, 4, 5] (replicate 5 0) of
      (r, c', e', nf, rest) \<Rightarrow> unat nf = 3) \<and>
   (case esp_aes_crypt_ctr shift_hw zero_ctx idle_engine 5 14 (replicate 16 0) (replicate 16 0)
           [1, 2, 3, 4, 5] (replicate 5 0) of
      (r, c', e', nf, rest) \<Rightarrow> unat nf = 3)"
  using offset_stays_in_range [where n = 14 and hw = shift_hw and ctx = zero_ctx
      and e = idle_engine and m = AES_DECRYPT and len = 5 and iv = "replicate 16 0"
      and input = "[1, 2, 3, 4, 5]" and outbuf = "replicate 5 0" and nc = "replicate 16 0"
      and sb = "replicate 16 0"]
  by (auto split: prod.splits)

subsection \<open>Keys\<close>

lemma key_bytes_differ: "replicate 16 (1 :: byte) @ replicate 16 0 \<noteq> replicate 32 2"
proof
  assume "replicate 16 (1 :: byte) @ replicate 16 0 = replicate 32 2"
  then have "hd (replicate 16 (1 :: byte) @ replicate 16 0) = hd (replicate 32 (2 :: byte))"
    by simp
  then show False
    by simp
qed

text \<open>
  C1, as the code has it. A \<open>setKey\<close> call with a valid bit length on a direction whose
  key flag is clear returns 0, sets the flag, and records the bits and the key bytes
  (padded with zeros to 32) in the key record of that direction; the other direction and
  the engine are not touched. A later \<open>setKey\<close> call with valid bits on that direction
  returns 0 and leaves the context as the first call left it: the new key goes to the
  engine, not into the record. The recorded bytes and bits are those of the first call.
\<close>

theorem setkey_first_call_recorded:
  assumes "keybit_of kb1 = Some b1" and "keybit_of kb2 = Some b2"
    and "key_bytes b1 \<le> length k1"
  shows "(keyflag (enc ctx) = False \<longrightarrow>
           (case esp_aes_setkey_enc ctx e (KeyBuf k1) kb1 of
              (r1, c1, e1) \<Rightarrow>
                r1 = AES_OK \<and> e1 = e \<and> dec c1 = dec ctx \<and>
                enc c1 = \<lparr>keyflag = True, keybits = kb1,
                           key = take (key_bytes b1) k1 @ replicate (32 - key_bytes b1) 0\<rparr> \<and>
                esp_aes_setkey_enc c1 e1 (KeyBuf k2) kb2 =
                  (AES_OK, c1, e1\<lparr>hw_key := Some (AES_ENCRYPT, b2, take (key_bytes b2) k2)\<rparr>))) \<and>
         (keyflag (dec ctx) = False \<longrightarrow>
           (case esp_aes_setkey_dec ctx e (KeyBuf k1) kb1 of
              (r1, c1, e1) \<Rightarrow>
                r1 = AES_OK \<and> e1 = e \<and> enc c1 = enc ctx \<and>
                dec c1 = \<lparr>keyflag = True, keybits = kb1,
                           key = take (key_bytes b1) k1 @ replicate (32 - key_bytes b1) 0\<rparr> \<and>
                esp_aes_setkey_dec c1 e1 (KeyBuf k2) kb2 =
                  (AES_OK, c1, e1\<lparr>hw_key := Some (AES_DECRYPT, b2, take (key_bytes b2) k2)\<rparr>)))"
  using assms
  by (auto simp: esp_aes_setkey_enc_def esp_aes_setkey_dec_def Let_def memcpy_def KEY_SIZE_def
        keybyte_eq ets_aes_setkey_enc_def ets_aes_setkey_dec_def)

theorem setkey_first_call_recorded_witness:
  "(case esp_aes_setkey_enc zero_ctx idle_engine (KeyBuf (replicate 16 1)) 128 of
      (r1, c1, e1) \<Rightarrow>
        r1 = AES_OK \<and> e1 = idle_engine \<and> dec c1 = zero_key \<and>
        enc c1 = \<lparr>keyflag = True, keybits = 128, key = replicate 16 1 @ replicate 16 0\<rparr> \<and>
        esp_aes_setkey_enc c1 e1 (KeyBuf (replicate 32 2)) 256 =
          (AES_OK, c1, e1\<lparr>hw_key := Some (AES_ENCRYPT, AES256, replicate 32 2)\<rparr>)) \<and>
   (case esp_aes_setkey_dec zero_ctx idle_engine (KeyBuf (replicate 16 1)) 128 of
      (r1, c1, e1) \<Rightarrow>
        r1 = AES_OK \<and> e1 = idle_engine \<and> enc c1 = zero_key \<and>
        dec c1 = \<lparr>keyflag = True, keybits = 128, key = replicate 16 1 @ replicate 16 0\<rparr> \<and>
        esp_aes_setkey_dec c1 e1 (KeyBuf (replicate 32 2)) 256 =
          (AES_OK, c1, e1\<lparr>hw_key := Some (AES_DECRYPT, AES256, replicate 32 2)\<rparr>))"
proof -
  have k1: "keybit_of 128 = Some AES128" and k2: "keybit_of 256 = Some AES256"
    by (simp_all add: keybit_of_def)
  have l: "key_bytes AES128 \<le> length (replicate 16 (1 :: byte))"
    by simp
  have f: "keyflag (enc zero_ctx) = False" "keyflag (dec zero_ctx) = False"
    "enc zero_ctx = zero_key" "dec zero_ctx = zero_key"
    by (simp_all add: zero_ctx_def zero_key_def)
  from setkey_first_call_recorded [OF k1 k2 l, of zero_ctx idle_engine "replicate 32 2"] f
  show ?thesis
    by simp
qed

theorem setkey_last_call_counterexample:
  "esp_aes_setkey_enc zero_ctx idle_engine (KeyBuf (replicate 16 1)) 128 =
     (AES_OK,
      zero_ctx\<lparr>enc := \<lparr>keyflag = True, keybits = 128, key = replicate 16 1 @ replicate 16 0\<rparr>\<rparr>,
      idle_engine) \<and>
   keybits (enc (fst (snd (esp_aes_setkey_enc
      (zero_ctx\<lparr>enc := \<lparr>keyflag = True, keybits = 128, key = replicate 16 1 @ replicate 16 0\<rparr>\<rparr>)
      idle_engine (KeyBuf (replicate 32 2)) 256)))) \<noteq> 256 \<and>
   key (enc (fst (snd (esp_aes_setkey_enc
      (zero_ctx\<lparr>enc := \<lparr>keyflag = True, keybits = 128, key = replicate 16 1 @ replicate 16 0\<rparr>\<rparr>)
      idle_engine (KeyBuf (replicate 32 2)) 256)))) \<noteq> replicate 32 2"
  by (simp add: esp_aes_setkey_enc_def zero_ctx_def zero_key_def keybit_of_def Let_def
        memcpy_def KEY_SIZE_def ets_aes_setkey_enc_def key_bytes_differ)

subsection \<open>Life cycle\<close>

lemma run_op_init:
  "snd (esp_aes_init e) =
     e\<lparr>aes_cnt := aes_cnt e + 1, hw_enabled := True, enable_calls := enable_calls e + 1\<rparr>"
  by (simp add: esp_aes_init_def AES_LOCK_def AES_UNLOCK_def AES_TAKE_def ets_aes_enable_def)

lemma run_op_free_null: "snd (esp_aes_free None e) = e"
  by (simp add: esp_aes_free_def)

lemma run_op_free:
  "snd (esp_aes_free (Some c) e) =
     (if aes_cnt e \<le> 1
      then e\<lparr>aes_cnt := 0, hw_enabled := False, disable_calls := disable_calls e + 1\<rparr>
      else e\<lparr>aes_cnt := aes_cnt e - 1\<rparr>)"
  by (auto simp: esp_aes_free_def AES_LOCK_def AES_UNLOCK_def AES_GIVE_def AES_IS_USED_def
        ets_aes_disable_def Let_def)

text \<open>
  C3, as the code has it. From an engine that is enabled exactly when the count of live
  contexts is positive, and for every sequence of init and free calls in which no
  context is freed while the count is 0: the enable primitive is called once for every
  init (also when other contexts are live), the disable primitive once for every step
  that takes the count from positive to 0, and afterwards the engine is again enabled
  exactly when the count is positive.
\<close>

theorem enable_per_init_disable_per_last_free:
  assumes "hw_enabled e = (0 < aes_cnt e)" and "balanced ops e"
  shows "enable_calls (run_ops ops e) = enable_calls e + length (filter is_init ops) \<and>
         disable_calls (run_ops ops e) = disable_calls e + downs ops e \<and>
         hw_enabled (run_ops ops e) = (0 < aes_cnt (run_ops ops e))"
  using assms
proof (induction ops arbitrary: e)
  case Nil
  then show ?case by simp
next
  case (Cons x xs)
  show ?case
  proof (cases x)
    case OpInit
    with Cons.prems have "hw_enabled (run_op x e) = (0 < aes_cnt (run_op x e))"
      and "balanced xs (run_op x e)"
      by (simp_all add: run_op_init)
    from Cons.IH [OF this] OpInit show ?thesis
      by (simp add: run_op_init)
  next
    case (OpFree p)
    show ?thesis
    proof (cases p)
      case None
      with OpFree Cons.prems have "hw_enabled (run_op x e) = (0 < aes_cnt (run_op x e))"
        and "balanced xs (run_op x e)"
        by (simp_all add: run_op_free_null)
      from Cons.IH [OF this] OpFree None show ?thesis
        by (auto simp: run_op_free_null)
    next
      case (Some c)
      with OpFree Cons.prems have pos: "0 < aes_cnt e"
        and "hw_enabled (run_op x e) = (0 < aes_cnt (run_op x e))"
        and "balanced xs (run_op x e)"
        by (simp_all add: run_op_free)
      from Cons.IH [OF this(2,3)] OpFree Some pos show ?thesis
        by (auto simp: run_op_free)
    qed
  qed
qed

theorem enable_per_init_disable_per_last_free_witness:
  "enable_calls (run_ops [OpInit, OpInit, OpFree (Some zero_ctx), OpFree None,
       OpFree (Some zero_ctx)] idle_engine) = 2 \<and>
   disable_calls (run_ops [OpInit, OpInit, OpFree (Some zero_ctx), OpFree None,
       OpFree (Some zero_ctx)] idle_engine) = 1 \<and>
   hw_enabled (run_ops [OpInit, OpInit, OpFree (Some zero_ctx), OpFree None,
       OpFree (Some zero_ctx)] idle_engine) = False"
proof -
  have a: "hw_enabled idle_engine = (0 < aes_cnt idle_engine)"
    by (simp add: idle_engine_def)
  have b: "balanced [OpInit, OpInit, OpFree (Some zero_ctx), OpFree None,
       OpFree (Some zero_ctx)] idle_engine"
    by (simp add: run_op_init run_op_free run_op_free_null idle_engine_def)
  from enable_per_init_disable_per_last_free [OF a b] show ?thesis
    by (simp add: run_op_init run_op_free run_op_free_null idle_engine_def)
qed

theorem enable_once_counterexample:
  "enable_calls (run_ops [OpInit, OpInit] idle_engine) = 2 \<and>
   ups [OpInit, OpInit] idle_engine = 1 \<and>
   aes_cnt (run_ops [OpInit] idle_engine) = 1 \<and>
   enable_calls (run_ops [OpInit] idle_engine) = 1"
  by (simp add: run_op_init idle_engine_def)

declare cbc_dec_loop.simps [simp del] cbc_enc_loop.simps [simp del]

subsection \<open>Keyed contexts and blocks\<close>

lemma keyed_ctx_set: "key_set (enc keyed_ctx)" "key_set (dec keyed_ctx)"
  by (simp_all add: key_set_def keyed_ctx_def keybit_of_def)

lemma shift_hw_block_sized: "block_sized shift_hw"
  by (auto simp: block_sized_def shift_hw_def split: option.splits)

lemma block_sizedD: "block_sized hw \<Longrightarrow> length b = 16 \<Longrightarrow> length (hw s b) = 16"
  by (simp add: block_sized_def)

lemma memcpy_block: "length src = 16 \<Longrightarrow> length dst = 16 \<Longrightarrow> memcpy dst src 16 = src"
  by (simp add: memcpy_def)

subsection \<open>CTR\<close>

lemma xor_cancel_byte: "(a XOR k) XOR k = (a :: byte)"
  by (simp add: xor.assoc)

lemma ctr_roundtrip_loop:
  "key_set (enc ctx) \<Longrightarrow> len \<le> length input \<Longrightarrow>
   ctr_loop hw ctx e1 len n nc sb input = (c1, e1', n1, nc1, sb1, ct) \<Longrightarrow>
   c1 = ctx \<and> length ct = len \<and>
   (\<exists>e2'. ctr_loop hw ctx e2 len n nc sb (ct @ rest) = (ctx, e2', n1, nc1, sb1, take len input))"
proof (induction len arbitrary: e1 e2 n nc sb input c1 e1' n1 nc1 sb1 ct)
  case 0
  then show ?case by simp
next
  case (Suc len)
  let ?s = "sched_of AES_ENCRYPT (enc ctx)"
  let ?e = "\<lambda>e. if n = 0 then e\<lparr>hw_key := ?s\<rparr> else e"
  let ?nc = "if n = 0 then ctr_inc_loop 16 nc else nc"
  let ?sb = "if n = 0 then memcpy sb (hw ?s (take 16 nc)) 16 else sb"
  let ?ob = "input ! 0 XOR ?sb ! unat n"
  have step: "ctr_loop hw ctx e (Suc len) n nc sb inp =
      (case ctr_loop hw ctx (?e e) len ((n + 1) AND 0x0F) ?nc ?sb (drop 1 inp) of
         (c2, e2, nf, ncf, sbf, outs) \<Rightarrow> (c2, e2, nf, ncf, sbf, (inp ! 0 XOR ?sb ! unat n) # outs))"
    for e inp
    using Suc.prems(1) by (simp add: ecb_key_set Let_def)
  from Suc.prems(3) obtain outs where
    ct: "ct = ?ob # outs" and
    rec: "ctr_loop hw ctx (?e e1) len ((n + 1) AND 0x0F) ?nc ?sb (drop 1 input) =
            (c1, e1', n1, nc1, sb1, outs)"
    unfolding step by (auto split: prod.splits)
  from Suc.prems(2) have len: "len \<le> length (drop 1 input)" and ne: "input \<noteq> []"
    by auto
  from Suc.IH [OF Suc.prems(1) len rec, of "?e e2"] obtain e2' where
    c1: "c1 = ctx" and l: "length outs = len" and
    rec2: "ctr_loop hw ctx (?e e2) len ((n + 1) AND 0x0F) ?nc ?sb (outs @ rest) =
            (ctx, e2', n1, nc1, sb1, take len (drop 1 input))"
    by blast
  have tk: "input ! 0 # take len (drop 1 input) = take (Suc len) input"
    using ne by (cases input) simp_all
  have "ctr_loop hw ctx e2 (Suc len) n nc sb (ct @ rest) =
      (ctx, e2', n1, nc1, sb1, take (Suc len) input)"
    unfolding step ct using rec2 tk by (simp add: xor_cancel_byte)
  with c1 l ct show ?case
    by auto
qed

lemma ctr_inc_loop_length: "length (ctr_inc_loop i nc) = length nc"
  by (induction i arbitrary: nc) (simp_all add: Let_def)

lemma ctr_inc_loop_append:
  "ctr_inc_loop (length xs) (xs @ ys) = ctr_inc_loop (length xs) xs @ ys"
proof (induction xs arbitrary: ys rule: rev_induct)
  case Nil
  then show ?case by simp
next
  case (snoc x xs)
  from snoc [of "0 # ys"] snoc [of "[0]"]
  show ?case
    by (simp add: Let_def nth_append list_update_append)
qed

lemma be_val_snoc: "be_val (xs @ [x]) = 256 * be_val xs + unat x"
  by (simp add: be_val_def)

lemma be_val_bound: "be_val xs < 256 ^ length xs"
proof (induction xs rule: rev_induct)
  case Nil
  then show ?case by (simp add: be_val_def)
next
  case (snoc x xs)
  have "unat x < 256"
    using unsigned_less [of x, where 'a = nat] by simp
  with snoc show ?case
    by (simp add: be_val_snoc)
qed

lemma byte_succ: "x + 1 \<noteq> 0 \<Longrightarrow> unat (x + 1) = unat x + 1 \<and> unat x < 255" for x :: byte
proof -
  assume a: "x + 1 \<noteq> 0"
  then have "unat (1 + x) = Suc (unat x)"
    by (simp add: unatSuc add.commute)
  moreover have "unat (1 + x) < 256"
    using unsigned_less [of "1 + x", where 'a = nat] by simp
  ultimately show ?thesis
    by (simp add: add.commute)
qed

lemma byte_wrap: "x + 1 = 0 \<Longrightarrow> unat x = 255" for x :: byte
proof -
  assume "x + 1 = 0"
  then have "x = - 1"
    by (simp add: add_eq_0_iff2)
  then show ?thesis
    by (simp add: unsigned_minus_1_eq_mask mask_eq_exp_minus_1)
qed

lemma ctr_inc_loop_be_val:
  "be_val (ctr_inc_loop (length xs) xs) = (be_val xs + 1) mod 256 ^ length xs"
proof (induction xs rule: rev_induct)
  case Nil
  then show ?case by (simp add: be_val_def)
next
  case (snoc x xs)
  show ?case
  proof (cases "x + 1 = 0")
    case True
    have "ctr_inc_loop (length (xs @ [x])) (xs @ [x]) = ctr_inc_loop (length xs) xs @ [0]"
      using True ctr_inc_loop_append [of xs "[0]"] by (simp add: Let_def)
    then have "be_val (ctr_inc_loop (length (xs @ [x])) (xs @ [x])) =
        256 * ((be_val xs + 1) mod 256 ^ length xs)"
      by (simp add: be_val_snoc snoc)
    also have "\<dots> = (256 * (be_val xs + 1)) mod (256 * 256 ^ length xs)"
      by (simp only: mult_mod_right)
    finally show ?thesis
      using byte_wrap [OF True] by (simp add: be_val_snoc)
  next
    case False
    have r: "ctr_inc_loop (length (xs @ [x])) (xs @ [x]) = xs @ [x + 1]"
      using False by (simp add: Let_def)
    have "256 * be_val xs + unat x + 1 < 256 * 256 ^ length xs"
      using be_val_bound [of xs] byte_succ [OF False] by simp
    moreover have "be_val (ctr_inc_loop (length (xs @ [x])) (xs @ [x])) =
        256 * be_val xs + unat x + 1"
      using byte_succ [OF False] by (simp only: r be_val_snoc)
    ultimately show ?thesis
      by (simp add: be_val_snoc)
  qed
qed

text \<open>
  C6. With the encrypt key set, a CTR call on \<open>Suc k\<close> bytes handles its first byte as
  follows and goes on as a CTR call on the remaining \<open>k\<close> bytes: when the offset is 0
  the stream block becomes the ECB encryption of the nonce counter and the nonce counter
  is then incremented; the output byte is the input byte XORed with the stream block at
  the offset; the offset advances by one modulo 16. The increment is that of a 128-bit
  big-endian number (the carry runs from the last byte upwards and stops at the first
  byte that does not wrap). Decryption is the same operation: applied to its own output
  from the same offset, nonce counter and stream block, CTR returns the input and ends
  in the same chaining state.
\<close>

theorem ctr_stream_cipher:
  assumes ks: "key_set (enc ctx)" and bs: "block_sized hw"
    and nc: "length nc = 16" and sb: "length sb = 16" and n: "unat n < 16"
    and len: "len \<le> length input"
  shows "esp_aes_crypt_ctr hw ctx e (Suc k) n nc sb input outbuf =
           (let sb' = (if n = 0 then hw (sched_of AES_ENCRYPT (enc ctx)) nc else sb);
                nc' = (if n = 0 then ctr_inc_loop 16 nc else nc);
                e' = (if n = 0 then e\<lparr>hw_key := sched_of AES_ENCRYPT (enc ctx)\<rparr> else e)
            in case esp_aes_crypt_ctr hw ctx e' k ((n + 1) AND 0x0F) nc' sb' (drop 1 input)
                      (drop 1 outbuf) of
                 (r, c, ef, nf, ncf, sbf, out') \<Rightarrow>
                   (r, c, ef, nf, ncf, sbf, (input ! 0 XOR sb' ! unat n) # out')) \<and>
         esp_aes_crypt_ctr hw ctx e 0 n nc sb input outbuf = (AES_OK, ctx, e, n, nc, sb, outbuf) \<and>
         length (ctr_inc_loop 16 nc) = 16 \<and>
         be_val (ctr_inc_loop 16 nc) = (be_val nc + 1) mod 2 ^ 128 \<and>
         (case esp_aes_crypt_ctr hw ctx e1 len n nc sb input out1 of
            (r1, c1, e1', n1, nc1, sb1, ct) \<Rightarrow>
              r1 = AES_OK \<and> c1 = ctx \<and>
              (case esp_aes_crypt_ctr hw ctx e2 len n nc sb ct out2 of
                 (r2, c2, e2', n2, nc2, sb2, pt) \<Rightarrow>
                   r2 = AES_OK \<and> c2 = ctx \<and> n2 = n1 \<and> nc2 = nc1 \<and> sb2 = sb1 \<and>
                   pt = take len input @ drop len out2))"
proof -
  let ?s = "sched_of AES_ENCRYPT (enc ctx)"
  have blk: "length (hw ?s nc) = 16"
    using bs nc by (rule block_sizedD)
  have step: "esp_aes_crypt_ctr hw ctx e (Suc k) n nc sb input outbuf =
           (let sb' = (if n = 0 then hw ?s nc else sb);
                nc' = (if n = 0 then ctr_inc_loop 16 nc else nc);
                e' = (if n = 0 then e\<lparr>hw_key := ?s\<rparr> else e)
            in case esp_aes_crypt_ctr hw ctx e' k ((n + 1) AND 0x0F) nc' sb' (drop 1 input)
                      (drop 1 outbuf) of
                 (r, c, ef, nf, ncf, sbf, out') \<Rightarrow>
                   (r, c, ef, nf, ncf, sbf, (input ! 0 XOR sb' ! unat n) # out'))"
    using nc sb blk ks
    by (simp add: esp_aes_crypt_ctr_def ecb_key_set memcpy_block Let_def
          split: prod.splits)
       (simp add: memcpy_def)
  have base: "esp_aes_crypt_ctr hw ctx e 0 n nc sb input outbuf = (AES_OK, ctx, e, n, nc, sb, outbuf)"
    by (simp add: esp_aes_crypt_ctr_def memcpy_def)
  have inc: "length (ctr_inc_loop 16 nc) = 16 \<and>
         be_val (ctr_inc_loop 16 nc) = (be_val nc + 1) mod 2 ^ 128"
    using ctr_inc_loop_be_val [of nc] nc by (simp add: ctr_inc_loop_length)
  have rt: "(case esp_aes_crypt_ctr hw ctx e1 len n nc sb input out1 of
            (r1, c1, e1', n1, nc1, sb1, ct) \<Rightarrow>
              r1 = AES_OK \<and> c1 = ctx \<and>
              (case esp_aes_crypt_ctr hw ctx e2 len n nc sb ct out2 of
                 (r2, c2, e2', n2, nc2, sb2, pt) \<Rightarrow>
                   r2 = AES_OK \<and> c2 = ctx \<and> n2 = n1 \<and> nc2 = nc1 \<and> sb2 = sb1 \<and>
                   pt = take len input @ drop len out2))"
  proof -
    obtain c1 e1' n1 nc1 sb1 w where
      l1: "ctr_loop hw ctx e1 len n nc sb input = (c1, e1', n1, nc1, sb1, w)"
      by (cases "ctr_loop hw ctx e1 len n nc sb input") auto
    from ctr_roundtrip_loop [OF ks len l1, of e2 "drop len out1"] obtain e2' where
      c1: "c1 = ctx" and lw: "length w = len" and
      l2: "ctr_loop hw ctx e2 len n nc sb (w @ drop len out1) =
             (ctx, e2', n1, nc1, sb1, take len input)"
      by blast
    show ?thesis
      using l1 l2 c1 lw len by (simp add: esp_aes_crypt_ctr_def memcpy_def)
  qed
  from step base inc rt show ?thesis
    by (intro conjI) simp_all
qed

theorem ctr_stream_cipher_witness:
  "length (ctr_inc_loop 16 (replicate 16 255)) = 16 \<and>
   be_val (ctr_inc_loop 16 (replicate 16 255)) = (be_val (replicate 16 255) + 1) mod 2 ^ 128 \<and>
   esp_aes_crypt_ctr shift_hw keyed_ctx idle_engine 0 0 (replicate 16 255) (replicate 16 0)
       [1, 2, 3] [0, 0, 0] =
     (AES_OK, keyed_ctx, idle_engine, 0, replicate 16 255, replicate 16 0, [0, 0, 0]) \<and>
   (case esp_aes_crypt_ctr shift_hw keyed_ctx idle_engine 2 0 (replicate 16 255)
           (replicate 16 0) [1, 2, 3] [0, 0, 0] of
      (r1, c1, e1', n1, nc1, sb1, ct) \<Rightarrow>
        r1 = AES_OK \<and> c1 = keyed_ctx \<and>
        (case esp_aes_crypt_ctr shift_hw keyed_ctx idle_engine 2 0 (replicate 16 255)
                (replicate 16 0) ct [9, 9, 9] of
           (r2, c2, e2', n2, nc2, sb2, pt) \<Rightarrow>
             r2 = AES_OK \<and> c2 = keyed_ctx \<and> n2 = n1 \<and> nc2 = nc1 \<and> sb2 = sb1 \<and>
             pt = [1, 2, 9]))"
proof -
  have h: "length (replicate 16 (255 :: byte)) = 16" "length (replicate 16 (0 :: byte)) = 16"
    "unat (0 :: 32 word) < 16" "2 \<le> length [1, 2, 3 :: byte]"
    by simp_all
  from ctr_stream_cipher [OF keyed_ctx_set(1) shift_hw_block_sized h,
      where e = idle_engine and outbuf = "[0, 0, 0]" and ?e1.0 = idle_engine
        and ?out1.0 = "[0, 0, 0]" and ?e2.0 = idle_engine and ?out2.0 = "[9, 9, 9]"]
  show ?thesis
    by simp
qed

subsection \<open>CFB-8\<close>

lemma cfb8_shift:
  "length iv = 16 \<Longrightarrow> drop (Suc 0) ((memcpy (replicate 17 0) iv 16)[16 := x]) = tl iv @ [x]"
  by (cases iv) (simp_all add: memcpy_def list_update_append)

lemma cfb8_step:
  assumes ks: "key_set (enc ctx)" and bs: "block_sized hw" and iv: "length iv = 16"
  shows "cfb8_loop hw m ctx e (Suc len) iv input =
     (let c = hw (sched_of AES_ENCRYPT (enc ctx)) iv ! 0 XOR input ! 0;
          fb = (if m = AES_DECRYPT then input ! 0 else c)
      in case cfb8_loop hw m ctx (e\<lparr>hw_key := sched_of AES_ENCRYPT (enc ctx)\<rparr>) len
                (tl iv @ [fb]) (drop 1 input) of
           (c2, e2, ivf, outs) \<Rightarrow> (c2, e2, ivf, c # outs))"
proof -
  have blk: "length (hw (sched_of AES_ENCRYPT (enc ctx)) iv) = 16"
    using bs iv by (rule block_sizedD)
  have sh: "memcpy (hw (sched_of AES_ENCRYPT (enc ctx)) iv) (tl iv @ [x]) 16 = tl iv @ [x]" for x
    using iv blk by (simp add: memcpy_def)
  show ?thesis
    using iv blk ks
    by (cases m) (simp_all add: ecb_key_set memcpy_block cfb8_shift sh Let_def)
qed

lemma cfb8_roundtrip_loop:
  assumes ks: "key_set (enc ctx)" and bs: "block_sized hw"
  shows "length iv = 16 \<Longrightarrow> len \<le> length input \<Longrightarrow>
   cfb8_loop hw AES_ENCRYPT ctx e1 len iv input = (c1, e1', iv1, ct) \<Longrightarrow>
   c1 = ctx \<and> length ct = len \<and> iv1 = drop len (iv @ ct) \<and>
   (\<exists>e2'. cfb8_loop hw AES_DECRYPT ctx e2 len iv (ct @ rest) = (ctx, e2', iv1, take len input))"
proof (induction len arbitrary: e1 e2 iv input c1 e1' iv1 ct)
  case 0
  then show ?case by simp
next
  case (Suc len)
  let ?s = "sched_of AES_ENCRYPT (enc ctx)"
  let ?c = "hw ?s iv ! 0 XOR input ! 0"
  note step = cfb8_step [OF ks bs Suc.prems(1)]
  from Suc.prems(3) obtain outs where
    ct: "ct = ?c # outs" and
    rec: "cfb8_loop hw AES_ENCRYPT ctx (e1\<lparr>hw_key := ?s\<rparr>) len (tl iv @ [?c]) (drop 1 input) =
            (c1, e1', iv1, outs)"
    unfolding step by (auto simp: Let_def split: prod.splits)
  from Suc.prems have l16: "length (tl iv @ [?c]) = 16"
    and len: "len \<le> length (drop 1 input)" and ne: "input \<noteq> []" and ivne: "iv \<noteq> []"
    by auto
  from Suc.IH [OF l16 len rec, of "e2\<lparr>hw_key := ?s\<rparr>"] obtain e2' where
    c1: "c1 = ctx" and l: "length outs = len" and
    iv1: "iv1 = drop len ((tl iv @ [?c]) @ outs)" and
    rec2: "cfb8_loop hw AES_DECRYPT ctx (e2\<lparr>hw_key := ?s\<rparr>) len (tl iv @ [?c]) (outs @ rest) =
            (ctx, e2', iv1, take len (drop 1 input))"
    by blast
  have tk: "input ! 0 # take len (drop 1 input) = take (Suc len) input"
    using ne by (cases input) simp_all
  have dr: "drop len ((tl iv @ [?c]) @ outs) = drop (Suc len) (iv @ ct)"
    using ivne ct by (cases iv) simp_all
  have "cfb8_loop hw AES_DECRYPT ctx e2 (Suc len) iv (ct @ rest) =
      (ctx, e2', iv1, take (Suc len) input)"
    unfolding step ct using rec2 tk by (simp add: xor_cancel_byte)
  with c1 l ct iv1 dr show ?case
    by auto
qed

text \<open>
  C5. With the encrypt key set, CFB-8 decryption of the CFB-8 encryption of a plaintext
  of any length, each call started from the same IV, returns the plaintext. A call on
  \<open>Suc k\<close> bytes shifts the register by one byte and appends the ciphertext byte of
  the step, which is the output byte when encrypting and the input byte when
  decrypting; so both calls leave the same register, the last 16 bytes of the IV
  followed by the ciphertext.
\<close>

theorem cfb8_round_trip:
  assumes ks: "key_set (enc ctx)" and bs: "block_sized hw"
    and iv: "length iv = 16" and len: "len \<le> length input"
  shows "esp_aes_crypt_cfb8 hw ctx e m (Suc k) iv input outbuf =
           (let c = hw (sched_of AES_ENCRYPT (enc ctx)) iv ! 0 XOR input ! 0;
                fb = (if m = AES_DECRYPT then input ! 0 else c)
            in case esp_aes_crypt_cfb8 hw ctx (e\<lparr>hw_key := sched_of AES_ENCRYPT (enc ctx)\<rparr>) m k
                      (tl iv @ [fb]) (drop 1 input) (drop 1 outbuf) of
                 (r, c2, e2, ivf, out') \<Rightarrow> (r, c2, e2, ivf, c # out')) \<and>
         (case esp_aes_crypt_cfb8 hw ctx e1 AES_ENCRYPT len iv input out1 of
            (r1, c1, e1', iv1, ct) \<Rightarrow>
              r1 = AES_OK \<and> c1 = ctx \<and> iv1 = drop len (iv @ take len ct) \<and>
              (case esp_aes_crypt_cfb8 hw ctx e2 AES_DECRYPT len iv ct out2 of
                 (r2, c2, e2', iv2, pt) \<Rightarrow>
                   r2 = AES_OK \<and> c2 = ctx \<and> iv2 = iv1 \<and>
                   pt = take len input @ drop len out2))"
proof -
  have step: "esp_aes_crypt_cfb8 hw ctx e m (Suc k) iv input outbuf =
           (let c = hw (sched_of AES_ENCRYPT (enc ctx)) iv ! 0 XOR input ! 0;
                fb = (if m = AES_DECRYPT then input ! 0 else c)
            in case esp_aes_crypt_cfb8 hw ctx (e\<lparr>hw_key := sched_of AES_ENCRYPT (enc ctx)\<rparr>) m k
                      (tl iv @ [fb]) (drop 1 input) (drop 1 outbuf) of
                 (r, c2, e2, ivf, out') \<Rightarrow> (r, c2, e2, ivf, c # out'))"
    unfolding esp_aes_crypt_cfb8_def cfb8_step [OF ks bs iv]
    by (simp add: Let_def memcpy_def split: prod.splits)
  have rt: "(case esp_aes_crypt_cfb8 hw ctx e1 AES_ENCRYPT len iv input out1 of
            (r1, c1, e1', iv1, ct) \<Rightarrow>
              r1 = AES_OK \<and> c1 = ctx \<and> iv1 = drop len (iv @ take len ct) \<and>
              (case esp_aes_crypt_cfb8 hw ctx e2 AES_DECRYPT len iv ct out2 of
                 (r2, c2, e2', iv2, pt) \<Rightarrow>
                   r2 = AES_OK \<and> c2 = ctx \<and> iv2 = iv1 \<and>
                   pt = take len input @ drop len out2))"
  proof -
    obtain c1 e1' iv1 w where
      l1: "cfb8_loop hw AES_ENCRYPT ctx e1 len iv input = (c1, e1', iv1, w)"
      by (cases "cfb8_loop hw AES_ENCRYPT ctx e1 len iv input") auto
    from cfb8_roundtrip_loop [OF ks bs iv len l1, of e2 "drop len out1"] obtain e2' where
      c1: "c1 = ctx" and lw: "length w = len" and iv1: "iv1 = drop len (iv @ w)" and
      l2: "cfb8_loop hw AES_DECRYPT ctx e2 len iv (w @ drop len out1) =
             (ctx, e2', iv1, take len input)"
      by blast
    show ?thesis
      using l1 l2 c1 lw iv1 len by (simp add: esp_aes_crypt_cfb8_def memcpy_def)
  qed
  from step rt show ?thesis
    by (intro conjI) simp_all
qed

theorem cfb8_round_trip_witness:
  "(case esp_aes_crypt_cfb8 shift_hw keyed_ctx idle_engine AES_ENCRYPT 3 (replicate 16 0)
           [1, 2, 3, 4] [0, 0, 0, 0] of
      (r1, c1, e1', iv1, ct) \<Rightarrow>
        r1 = AES_OK \<and> c1 = keyed_ctx \<and> iv1 = drop 3 (replicate 16 0 @ take 3 ct) \<and>
        (case esp_aes_crypt_cfb8 shift_hw keyed_ctx idle_engine AES_DECRYPT 3 (replicate 16 0)
                ct [9, 9, 9, 9] of
           (r2, c2, e2', iv2, pt) \<Rightarrow>
             r2 = AES_OK \<and> c2 = keyed_ctx \<and> iv2 = iv1 \<and> pt = [1, 2, 3, 9]))"
proof -
  have h: "length (replicate 16 (0 :: byte)) = 16" "3 \<le> length [1, 2, 3, 4 :: byte]"
    by simp_all
  from cfb8_round_trip [OF keyed_ctx_set(1) shift_hw_block_sized h,
      where ?e1.0 = idle_engine and ?out1.0 = "[0, 0, 0, 0]" and ?e2.0 = idle_engine
        and ?out2.0 = "[9, 9, 9, 9]"]
  show ?thesis
    by simp
qed

subsection \<open>CBC\<close>

lemma map_nth_take: "n \<le> length xs \<Longrightarrow> map (\<lambda>i. xs ! i) [0..<n] = take n xs"
  by (simp add: list_eq_iff_nth_eq)







subsection \<open>Operations on a key that was never set\<close>

lemma cbc_dec_loop_unset:
  "key_unset (dec ctx) \<Longrightarrow>
     fst (cbc_dec_loop hw ctx e len iv input) = ctx \<and>
     fst (snd (cbc_dec_loop hw ctx e len iv input)) = e"
proof (induction len arbitrary: iv input rule: less_induct)
  case (less len)
  show ?case
  proof (cases "0 < len")
    case True
    then have "len - 16 < len" by simp
    note IH = less.IH [OF this less.prems]
    show ?thesis
      using True
      by (subst (1 2) cbc_dec_loop.simps)
         (simp add: IH ecb_key_unset less.prems Let_def case_prod_beta)
  next
    case False
    then show ?thesis
      by (subst (1 2) cbc_dec_loop.simps) simp
  qed
qed

lemma cbc_enc_loop_unset:
  "key_unset (enc ctx) \<Longrightarrow>
     fst (cbc_enc_loop hw ctx e len iv input) = ctx \<and>
     fst (snd (cbc_enc_loop hw ctx e len iv input)) = e"
proof (induction len arbitrary: iv input rule: less_induct)
  case (less len)
  show ?case
  proof (cases "0 < len")
    case True
    then have "len - 16 < len" by simp
    note IH = less.IH [OF this less.prems]
    show ?thesis
      using True
      by (subst (1 2) cbc_enc_loop.simps)
         (simp add: IH ecb_key_unset less.prems Let_def case_prod_beta)
  next
    case False
    then show ?thesis
      by (subst (1 2) cbc_enc_loop.simps) simp
  qed
qed

lemma cfb128_dec_loop_unset:
  "key_unset (enc ctx) \<Longrightarrow>
     fst (cfb128_dec_loop hw ctx e len n iv input) = ctx \<and>
     fst (snd (cfb128_dec_loop hw ctx e len n iv input)) = e"
  by (induction len arbitrary: n iv input)
     (simp_all add: ecb_key_unset Let_def case_prod_beta)

lemma cfb128_enc_loop_unset:
  "key_unset (enc ctx) \<Longrightarrow>
     fst (cfb128_enc_loop hw ctx e len n iv input) = ctx \<and>
     fst (snd (cfb128_enc_loop hw ctx e len n iv input)) = e"
  by (induction len arbitrary: n iv input)
     (simp_all add: ecb_key_unset Let_def case_prod_beta)

lemma cfb8_loop_unset:
  "key_unset (enc ctx) \<Longrightarrow>
     fst (cfb8_loop hw m ctx e len iv input) = ctx \<and>
     fst (snd (cfb8_loop hw m ctx e len iv input)) = e"
  by (induction len arbitrary: iv input)
     (simp_all add: ecb_key_unset Let_def case_prod_beta)

lemma ctr_loop_unset:
  "key_unset (enc ctx) \<Longrightarrow>
     fst (ctr_loop hw ctx e len n nc sb input) = ctx \<and>
     fst (snd (ctr_loop hw ctx e len n nc sb input)) = e"
  by (induction len arbitrary: n nc sb input)
     (simp_all add: ecb_key_unset Let_def case_prod_beta)

lemma zero_ctx_unset: "key_unset (enc zero_ctx)" "key_unset (dec zero_ctx)"
  by (simp_all add: key_unset_def zero_ctx_def zero_key_def keybit_of_def)

lemma memcpy_cons: "memcpy dst (x # w) (Suc k) = x # memcpy (drop 1 dst) w k"
  by (simp add: memcpy_def)

lemma memcpy_block_app:
  "length blk = 16 \<Longrightarrow> memcpy dst (blk @ w) (len + 16) = blk @ memcpy (drop 16 dst) w len"
  by (simp add: memcpy_def add.commute)

lemma cbc_step_unset:
  assumes ku: "key_unset (if m = AES_ENCRYPT then enc ctx else dec ctx)"
    and bs: "block_sized hw" and iv: "length iv = 16" and m16: "len mod 16 = 0"
  shows "esp_aes_crypt_cbc hw ctx e m (len + 16) iv input outbuf =
     (let blk = (if m = AES_DECRYPT
                 then map (\<lambda>i. hw (hw_key e) (take 16 input) ! i XOR iv ! i) [0..<16]
                 else hw (hw_key e) (map (\<lambda>i. input ! i XOR iv ! i) [0..<16]));
          iv' = (if m = AES_DECRYPT then take 16 input else blk)
      in case esp_aes_crypt_cbc hw ctx e m len iv' (drop 16 input) (drop 16 outbuf) of
           (r, c', e', ivf, out') \<Rightarrow> (r, c', e', ivf, blk @ out'))"
proof (cases m)
  case AES_ENCRYPT
  let ?blk = "hw (hw_key e) (map (\<lambda>i. input ! i XOR iv ! i) [0..<16])"
  have blk: "length ?blk = 16"
    using bs by (rule block_sizedD) simp
  have loop: "cbc_enc_loop hw ctx e (len + 16) iv input =
      (case cbc_enc_loop hw ctx e len ?blk (drop 16 input) of
         (c2, e2, iv2, outs) \<Rightarrow> (c2, e2, iv2, ?blk @ outs))"
    using ku AES_ENCRYPT iv blk
    by (subst cbc_enc_loop.simps) (simp add: ecb_key_unset memcpy_block Let_def)
  show ?thesis
    using AES_ENCRYPT m16 blk
    by (simp add: esp_aes_crypt_cbc_def loop Let_def memcpy_block_app split: prod.splits)
next
  case AES_DECRYPT
  let ?blk = "map (\<lambda>i. hw (hw_key e) (take 16 input) ! i XOR iv ! i) [0..<16]"
  have t: "memcpy iv (memcpy (replicate 16 0) input 16) 16 = take 16 input"
    using iv by (simp add: memcpy_def)
  have loop: "cbc_dec_loop hw ctx e (len + 16) iv input =
      (case cbc_dec_loop hw ctx e len (take 16 input) (drop 16 input) of
         (c2, e2, iv2, outs) \<Rightarrow> (c2, e2, iv2, ?blk @ outs))"
    using ku AES_DECRYPT
    by (subst cbc_dec_loop.simps) (simp add: ecb_key_unset t Let_def)
  show ?thesis
    using AES_DECRYPT m16
    by (simp add: esp_aes_crypt_cbc_def loop Let_def memcpy_block_app split: prod.splits)
qed

lemma cfb128_step_unset:
  assumes ku: "key_unset (enc ctx)" and bs: "block_sized hw" and iv: "length iv = 16"
  shows "esp_aes_crypt_cfb128 hw ctx e m (Suc k) n iv input outbuf =
     (let iv1 = (if n = 0 then hw (hw_key e) iv else iv);
          ob = iv1 ! unat n XOR input ! 0;
          iv2 = iv1[unat n := (if m = AES_DECRYPT then input ! 0 else ob)]
      in case esp_aes_crypt_cfb128 hw ctx e m k ((n + 1) AND 0x0F) iv2 (drop 1 input)
                (drop 1 outbuf) of
           (r, c', e', nf, ivf, out') \<Rightarrow> (r, c', e', nf, ivf, ob # out'))"
proof -
  have blk: "length (hw (hw_key e) iv) = 16"
    using bs iv by (rule block_sizedD)
  show ?thesis
    using ku iv blk
    by (cases m)
       (simp_all add: esp_aes_crypt_cfb128_def ecb_key_unset memcpy_block memcpy_cons Let_def
          xor.commute split: prod.splits)
qed

lemma cfb8_step_unset:
  assumes ku: "key_unset (enc ctx)" and bs: "block_sized hw" and iv: "length iv = 16"
  shows "esp_aes_crypt_cfb8 hw ctx e m (Suc k) iv input outbuf =
     (let c = hw (hw_key e) iv ! 0 XOR input ! 0;
          fb = (if m = AES_DECRYPT then input ! 0 else c)
      in case esp_aes_crypt_cfb8 hw ctx e m k (tl iv @ [fb]) (drop 1 input) (drop 1 outbuf) of
           (r, c', e', ivf, out') \<Rightarrow> (r, c', e', ivf, c # out'))"
proof -
  have blk: "length (hw (hw_key e) iv) = 16"
    using bs iv by (rule block_sizedD)
  have sh: "memcpy (hw (hw_key e) iv) (tl iv @ [x]) 16 = tl iv @ [x]" for x
    using iv blk by (simp add: memcpy_def)
  show ?thesis
    using ku iv blk
    by (cases m)
       (simp_all add: esp_aes_crypt_cfb8_def ecb_key_unset memcpy_block cfb8_shift sh
          memcpy_cons Let_def split: prod.splits)
qed

lemma ctr_step_unset:
  assumes ku: "key_unset (enc ctx)" and bs: "block_sized hw"
    and nc: "length nc = 16" and sb: "length sb = 16"
  shows "esp_aes_crypt_ctr hw ctx e (Suc k) n nc sb input outbuf =
     (let sb' = (if n = 0 then hw (hw_key e) nc else sb);
          nc' = (if n = 0 then ctr_inc_loop 16 nc else nc)
      in case esp_aes_crypt_ctr hw ctx e k ((n + 1) AND 0x0F) nc' sb' (drop 1 input)
                (drop 1 outbuf) of
           (r, c', e', nf, ncf, sbf, out') \<Rightarrow>
             (r, c', e', nf, ncf, sbf, (input ! 0 XOR sb' ! unat n) # out'))"
proof -
  have blk: "length (hw (hw_key e) nc) = 16"
    using bs nc by (rule block_sizedD)
  show ?thesis
    using ku nc sb blk
    by (simp add: esp_aes_crypt_ctr_def ecb_key_unset memcpy_block memcpy_cons Let_def
          split: prod.splits)
qed

lemma mode_bases:
  "esp_aes_crypt_cbc hw ctx e m 0 iv input outbuf = (AES_OK, ctx, e, iv, outbuf)"
  "esp_aes_crypt_cfb128 hw ctx e m 0 n iv input outbuf = (AES_OK, ctx, e, n, iv, outbuf)"
  "esp_aes_crypt_cfb8 hw ctx e m 0 iv input outbuf = (AES_OK, ctx, e, iv, outbuf)"
  "esp_aes_crypt_ctr hw ctx e 0 n nc sb input outbuf = (AES_OK, ctx, e, n, nc, sb, outbuf)"
  by (simp_all add: esp_aes_crypt_cbc_def esp_aes_crypt_cfb128_def esp_aes_crypt_cfb8_def
        esp_aes_crypt_ctr_def cbc_dec_loop.simps cbc_enc_loop.simps memcpy_def)

lemma mode_return_codes:
  "fst (esp_aes_crypt_ecb hw ctx e m b) = AES_OK"
  "len mod 16 = 0 \<Longrightarrow> fst (esp_aes_crypt_cbc hw ctx e m len iv input outbuf) = AES_OK"
  "fst (esp_aes_crypt_cfb128 hw ctx e m len n iv input outbuf) = AES_OK"
  "fst (esp_aes_crypt_cfb8 hw ctx e m len iv input outbuf) = AES_OK"
  "fst (esp_aes_crypt_ctr hw ctx e len n nc sb input outbuf) = AES_OK"
  by (simp_all add: esp_aes_crypt_ecb_def esp_aes_crypt_cbc_def esp_aes_crypt_cfb128_def
        esp_aes_crypt_cfb8_def esp_aes_crypt_ctr_def esp_aes_process_disable_def Let_def
        split: prod.splits)

text \<open>
  C2, as the code has it. No operation reports a key that was never set: ECB, CFB-128,
  CFB-8 and CTR return 0 for every context, and CBC returns 0 whenever the length is a
  multiple of 16. When the key record the operation uses is untouched (flag clear, no
  valid bit length recorded) no key is installed, the context and the engine are left
  as they were, and every block is transformed under whatever key schedule the engine
  holds at that moment. The record used is that of the requested direction for ECB and
  CBC, and the encrypt record for CFB-128, CFB-8 and CTR in either direction. The
  equations for \<open>len + 16\<close> and \<open>Suc k\<close> bytes give the bytes written: a call handles
  its first block or byte with the engine's transform as it stands and goes on as a call
  on the rest.
\<close>

theorem unset_key_goes_unreported:
  "(fst (esp_aes_crypt_ecb hw ctx e m b) = AES_OK \<and>
    (len mod 16 = 0 \<longrightarrow> fst (esp_aes_crypt_cbc hw ctx e m len iv input outbuf) = AES_OK) \<and>
    fst (esp_aes_crypt_cfb128 hw ctx e m len n iv input outbuf) = AES_OK \<and>
    fst (esp_aes_crypt_cfb8 hw ctx e m len iv input outbuf) = AES_OK \<and>
    fst (esp_aes_crypt_ctr hw ctx e len n nc sb input outbuf) = AES_OK) \<and>
   (key_unset (if m = AES_ENCRYPT then enc ctx else dec ctx) \<longrightarrow>
      esp_aes_crypt_ecb hw ctx e m b = (AES_OK, ctx, e, hw (hw_key e) (take 16 b)) \<and>
      (len mod 16 = 0 \<longrightarrow>
         (case esp_aes_crypt_cbc hw ctx e m len iv input outbuf of
            (r, c', e', rest) \<Rightarrow> r = AES_OK \<and> c' = ctx \<and> e' = e)) \<and>
      esp_aes_crypt_cbc hw ctx e m 0 iv input outbuf = (AES_OK, ctx, e, iv, outbuf) \<and>
      (block_sized hw \<and> length iv = 16 \<and> len mod 16 = 0 \<longrightarrow>
         esp_aes_crypt_cbc hw ctx e m (len + 16) iv input outbuf =
           (let blk = (if m = AES_DECRYPT
                       then map (\<lambda>i. hw (hw_key e) (take 16 input) ! i XOR iv ! i) [0..<16]
                       else hw (hw_key e) (map (\<lambda>i. input ! i XOR iv ! i) [0..<16]));
                iv' = (if m = AES_DECRYPT then take 16 input else blk)
            in case esp_aes_crypt_cbc hw ctx e m len iv' (drop 16 input) (drop 16 outbuf) of
                 (r, c', e', ivf, out') \<Rightarrow> (r, c', e', ivf, blk @ out')))) \<and>
   (key_unset (enc ctx) \<longrightarrow>
      (case esp_aes_crypt_cfb128 hw ctx e m len n iv input outbuf of
         (r, c', e', rest) \<Rightarrow> r = AES_OK \<and> c' = ctx \<and> e' = e) \<and>
      (case esp_aes_crypt_cfb8 hw ctx e m len iv input outbuf of
         (r, c', e', rest) \<Rightarrow> r = AES_OK \<and> c' = ctx \<and> e' = e) \<and>
      (case esp_aes_crypt_ctr hw ctx e len n nc sb input outbuf of
         (r, c', e', rest) \<Rightarrow> r = AES_OK \<and> c' = ctx \<and> e' = e) \<and>
      esp_aes_crypt_cfb128 hw ctx e m 0 n iv input outbuf = (AES_OK, ctx, e, n, iv, outbuf) \<and>
      esp_aes_crypt_cfb8 hw ctx e m 0 iv input outbuf = (AES_OK, ctx, e, iv, outbuf) \<and>
      esp_aes_crypt_ctr hw ctx e 0 n nc sb input outbuf = (AES_OK, ctx, e, n, nc, sb, outbuf) \<and>
      (block_sized hw \<and> length iv = 16 \<longrightarrow>
         esp_aes_crypt_cfb128 hw ctx e m (Suc k) n iv input outbuf =
           (let iv1 = (if n = 0 then hw (hw_key e) iv else iv);
                ob = iv1 ! unat n XOR input ! 0;
                iv2 = iv1[unat n := (if m = AES_DECRYPT then input ! 0 else ob)]
            in case esp_aes_crypt_cfb128 hw ctx e m k ((n + 1) AND 0x0F) iv2 (drop 1 input)
                      (drop 1 outbuf) of
                 (r, c', e', nf, ivf, out') \<Rightarrow> (r, c', e', nf, ivf, ob # out')) \<and>
         esp_aes_crypt_cfb8 hw ctx e m (Suc k) iv input outbuf =
           (let c = hw (hw_key e) iv ! 0 XOR input ! 0;
                fb = (if m = AES_DECRYPT then input ! 0 else c)
            in case esp_aes_crypt_cfb8 hw ctx e m k (tl iv @ [fb]) (drop 1 input)
                      (drop 1 outbuf) of
                 (r, c', e', ivf, out') \<Rightarrow> (r, c', e', ivf, c # out'))) \<and>
      (block_sized hw \<and> length nc = 16 \<and> length sb = 16 \<longrightarrow>
         esp_aes_crypt_ctr hw ctx e (Suc k) n nc sb input outbuf =
           (let sb' = (if n = 0 then hw (hw_key e) nc else sb);
                nc' = (if n = 0 then ctr_inc_loop 16 nc else nc)
            in case esp_aes_crypt_ctr hw ctx e k ((n + 1) AND 0x0F) nc' sb' (drop 1 input)
                      (drop 1 outbuf) of
                 (r, c', e', nf, ncf, sbf, out') \<Rightarrow>
                   (r, c', e', nf, ncf, sbf, (input ! 0 XOR sb' ! unat n) # out'))))"
proof -
  have ecb: "key_unset (if m = AES_ENCRYPT then enc ctx else dec ctx) \<Longrightarrow>
      esp_aes_crypt_ecb hw ctx e m b = (AES_OK, ctx, e, hw (hw_key e) (take 16 b))"
    by (cases m) (simp_all add: ecb_key_unset)
  have cbc: "key_unset (if m = AES_ENCRYPT then enc ctx else dec ctx) \<Longrightarrow> len mod 16 = 0 \<Longrightarrow>
      (case esp_aes_crypt_cbc hw ctx e m len iv input outbuf of
            (r, c', e', rest) \<Rightarrow> r = AES_OK \<and> c' = ctx \<and> e' = e)"
    using cbc_dec_loop_unset [of ctx hw e len iv input]
      cbc_enc_loop_unset [of ctx hw e len iv input]
    by (cases m) (auto simp: esp_aes_crypt_cbc_def split: prod.splits)
  have cfb128: "key_unset (enc ctx) \<Longrightarrow>
      (case esp_aes_crypt_cfb128 hw ctx e m len n iv input outbuf of
         (r, c', e', rest) \<Rightarrow> r = AES_OK \<and> c' = ctx \<and> e' = e)"
    using cfb128_dec_loop_unset [of ctx hw e len n iv input]
      cfb128_enc_loop_unset [of ctx hw e len n iv input]
    by (auto simp: esp_aes_crypt_cfb128_def split: prod.splits)
  have cfb8: "key_unset (enc ctx) \<Longrightarrow>
      (case esp_aes_crypt_cfb8 hw ctx e m len iv input outbuf of
         (r, c', e', rest) \<Rightarrow> r = AES_OK \<and> c' = ctx \<and> e' = e)"
    using cfb8_loop_unset [of ctx hw m e len iv input]
    by (auto simp: esp_aes_crypt_cfb8_def split: prod.splits)
  have ctr: "key_unset (enc ctx) \<Longrightarrow>
      (case esp_aes_crypt_ctr hw ctx e len n nc sb input outbuf of
         (r, c', e', rest) \<Rightarrow> r = AES_OK \<and> c' = ctx \<and> e' = e)"
    using ctr_loop_unset [of ctx hw e len n nc sb input]
    by (auto simp: esp_aes_crypt_ctr_def split: prod.splits)
  show ?thesis
    by (intro conjI impI; (elim conjE)?;
        (rule mode_return_codes mode_bases ecb cbc cfb128 cfb8 ctr
              cbc_step_unset cfb128_step_unset cfb8_step_unset ctr_step_unset; assumption))
qed

theorem unset_key_goes_unreported_witness:
  "esp_aes_crypt_ecb shift_hw zero_ctx
       (idle_engine\<lparr>hw_key := Some (AES_ENCRYPT, AES128, replicate 16 1)\<rparr>)
       AES_DECRYPT (replicate 16 7) =
     (AES_OK, zero_ctx, idle_engine\<lparr>hw_key := Some (AES_ENCRYPT, AES128, replicate 16 1)\<rparr>,
      shift_hw (Some (AES_ENCRYPT, AES128, replicate 16 1)) (replicate 16 7)) \<and>
   esp_aes_crypt_cbc shift_hw zero_ctx
       (idle_engine\<lparr>hw_key := Some (AES_ENCRYPT, AES128, replicate 16 1)\<rparr>)
       AES_DECRYPT (16 + 16) (replicate 16 5) (replicate 40 1) (replicate 40 0) =
     (let blk = map (\<lambda>i. shift_hw (Some (AES_ENCRYPT, AES128, replicate 16 1))
                              (replicate 16 1) ! i XOR replicate 16 5 ! i) [0..<16]
      in case esp_aes_crypt_cbc shift_hw zero_ctx
                (idle_engine\<lparr>hw_key := Some (AES_ENCRYPT, AES128, replicate 16 1)\<rparr>)
                AES_DECRYPT 16 (replicate 16 1) (replicate 24 1) (replicate 24 0) of
           (r, c', e', ivf, out') \<Rightarrow> (r, c', e', ivf, blk @ out')) \<and>
   (case esp_aes_crypt_cfb128 shift_hw zero_ctx
           (idle_engine\<lparr>hw_key := Some (AES_ENCRYPT, AES128, replicate 16 1)\<rparr>)
           AES_DECRYPT 16 0 (replicate 16 5) (replicate 40 1) (replicate 40 0) of
      (r, c', e', rest) \<Rightarrow>
        r = AES_OK \<and> c' = zero_ctx \<and>
        e' = idle_engine\<lparr>hw_key := Some (AES_ENCRYPT, AES128, replicate 16 1)\<rparr>) \<and>
   esp_aes_crypt_cfb8 shift_hw zero_ctx
       (idle_engine\<lparr>hw_key := Some (AES_ENCRYPT, AES128, replicate 16 1)\<rparr>)
       AES_DECRYPT (Suc 2) (replicate 16 5) (replicate 40 1) (replicate 40 0) =
     (let c = shift_hw (Some (AES_ENCRYPT, AES128, replicate 16 1)) (replicate 16 5) ! 0 XOR 1
      in case esp_aes_crypt_cfb8 shift_hw zero_ctx
                (idle_engine\<lparr>hw_key := Some (AES_ENCRYPT, AES128, replicate 16 1)\<rparr>)
                AES_DECRYPT 2 (replicate 15 5 @ [1]) (replicate 39 1) (replicate 39 0) of
           (r, c', e', ivf, out') \<Rightarrow> (r, c', e', ivf, c # out')) \<and>
   esp_aes_crypt_ctr shift_hw zero_ctx
       (idle_engine\<lparr>hw_key := Some (AES_ENCRYPT, AES128, replicate 16 1)\<rparr>)
       (Suc 2) 0 (replicate 16 255) (replicate 16 0) (replicate 40 1) (replicate 40 0) =
     (let sb' = shift_hw (Some (AES_ENCRYPT, AES128, replicate 16 1)) (replicate 16 255)
      in case esp_aes_crypt_ctr shift_hw zero_ctx
                (idle_engine\<lparr>hw_key := Some (AES_ENCRYPT, AES128, replicate 16 1)\<rparr>)
                2 1 (ctr_inc_loop 16 (replicate 16 255)) sb' (replicate 39 1) (replicate 39 0) of
           (r, c', e', nf, ncf, sbf, out') \<Rightarrow>
             (r, c', e', nf, ncf, sbf, (1 XOR sb' ! 0) # out'))"
proof -
  have u: "key_unset (if AES_DECRYPT = AES_ENCRYPT then enc zero_ctx else dec zero_ctx)"
    "key_unset (enc zero_ctx)"
    by (simp_all add: zero_ctx_unset)
  have h: "block_sized shift_hw" "length (replicate 16 (5 :: byte)) = 16"
    "(16 :: nat) mod 16 = 0" "length (replicate 16 (255 :: byte)) = 16"
    "length (replicate 16 (0 :: byte)) = 16"
    by (simp_all add: shift_hw_block_sized)
  have t: "tl (replicate 16 (5 :: byte)) = replicate 15 5"
    by (simp add: tl_replicate)
  from unset_key_goes_unreported [where hw = shift_hw and ctx = zero_ctx
      and e = "idle_engine\<lparr>hw_key := Some (AES_ENCRYPT, AES128, replicate 16 1)\<rparr>"
      and m = AES_DECRYPT and b = "replicate 16 7" and len = 16 and iv = "replicate 16 5"
      and input = "replicate 40 1" and outbuf = "replicate 40 0" and n = 0
      and nc = "replicate 16 255" and sb = "replicate 16 0" and k = 2] u h
  show ?thesis
    by (simp add: t Let_def)
qed

theorem key_not_set_counterexample:
  "keyflag (enc zero_ctx) = False \<and>
   esp_aes_crypt_ecb shift_hw zero_ctx
       (idle_engine\<lparr>hw_key := Some (AES_ENCRYPT, AES128, replicate 16 1)\<rparr>)
       AES_ENCRYPT (replicate 16 0) =
     (AES_OK, zero_ctx, idle_engine\<lparr>hw_key := Some (AES_ENCRYPT, AES128, replicate 16 1)\<rparr>,
      replicate 16 17)"
  by (simp add: ecb_key_unset zero_ctx_unset shift_hw_def sum_list_replicate)
    (simp add: zero_ctx_def zero_key_def)

end
